theory Spec2Isabelle
  imports Main "HOL-Library.Sublist"
begin

section \<open>Python strings\<close>

text \<open>
  A Python \<open>str\<close> is modelled as a \<open>string\<close>: one \<open>char\<close> per code point, for the code
  points 0 to 255. The classes below are those of CPython 3 on that range.
\<close>

text \<open>The class \<open>\w\<close> of the \<open>re\<close> module on a \<open>str\<close> pattern: alphanumeric or underscore.\<close>

definition is_word :: "char \<Rightarrow> bool" where
  "is_word c =
     (let n = (of_char c :: nat) in
        (48 \<le> n \<and> n \<le> 57) \<or> (65 \<le> n \<and> n \<le> 90) \<or> n = 95 \<or> (97 \<le> n \<and> n \<le> 122) \<or>
        n = 170 \<or> (178 \<le> n \<and> n \<le> 179) \<or> n = 181 \<or> (185 \<le> n \<and> n \<le> 186) \<or>
        (188 \<le> n \<and> n \<le> 190) \<or> (192 \<le> n \<and> n \<le> 214) \<or> (216 \<le> n \<and> n \<le> 246) \<or>
        248 \<le> n)"

text \<open>The characters \<open>str.strip()\<close> removes: those for which \<open>str.isspace\<close> holds.\<close>

definition is_space :: "char \<Rightarrow> bool" where
  "is_space c =
     (let n = (of_char c :: nat) in
        (9 \<le> n \<and> n \<le> 13) \<or> (28 \<le> n \<and> n \<le> 32) \<or> n = 133 \<or> n = 160)"

definition strip :: "string \<Rightarrow> string" where
  "strip s = rev (dropWhile is_space (rev (dropWhile is_space s)))"

text \<open>
  One attempt of the regular expression \<open>@(\w+)@\<close> at the start of a string: the
  captured name and the text after the closing \<open>@\<close>. The greedy \<open>\w+\<close> takes the whole
  run of word characters; a shorter run would be followed by a word character, never by
  \<open>@\<close>, so backtracking finds nothing more.
\<close>

definition match_token :: "string \<Rightarrow> (string \<times> string) option" where
  "match_token s =
     (case s of
        [] \<Rightarrow> None
      | c # r \<Rightarrow>
          if c \<noteq> CHR ''@'' then None
          else (case dropWhile is_word r of
                  [] \<Rightarrow> None
                | d # rest \<Rightarrow>
                    if takeWhile is_word r \<noteq> [] \<and> d = CHR ''@''
                    then Some (takeWhile is_word r, rest) else None))"

lemma match_token_shorter:
  "match_token s = Some (name, rest) \<Longrightarrow> length rest < length s"
proof -
  assume m: "match_token s = Some (name, rest)"
  then obtain c r where s: "s = c # r"
    by (cases s) (simp_all add: match_token_def)
  from m s obtain d where d: "dropWhile is_word r = d # rest"
    by (auto simp: match_token_def split: if_splits list.splits)
  have "length (dropWhile is_word r) \<le> length r"
    by (rule length_dropWhile_le)
  with d s show ?thesis by simp
qed

text \<open>
  \<open>re.findall(r'@(\w+)@', s)\<close>: the captured names of the matches found scanning from the
  left, each scan resuming after the previous match (matches do not overlap).
\<close>

function findall :: "string \<Rightarrow> string list" where
  "findall [] = []"
| "findall (c # r) =
     (case match_token (c # r) of
        None \<Rightarrow> findall r
      | Some (name, rest) \<Rightarrow> name # findall rest)"
  by pat_completeness auto
termination
  by (relation "measure length") (auto dest: match_token_shorter)

text \<open>\<open>pat in s\<close> on strings: \<open>pat\<close> occurs in \<open>s\<close> as a contiguous substring.\<close>

fun contains :: "string \<Rightarrow> string \<Rightarrow> bool" where
  "contains pat [] = (pat = [])"
| "contains pat (c # s) = (prefix pat (c # s) \<or> contains pat s)"

text \<open>
  \<open>s.replace(old, new)\<close>: every occurrence of \<open>old\<close>, found scanning from the left and
  resuming after each occurrence, is replaced by \<open>new\<close>; the inserted text is not
  scanned. With an empty \<open>old\<close>, Python inserts \<open>new\<close> before every character and at the
  end.
\<close>

function replace :: "string \<Rightarrow> string \<Rightarrow> string \<Rightarrow> string" where
  "replace old new [] = (if old = [] then new else [])"
| "replace old new (c # s) =
     (if old = [] then new @ c # replace old new s
      else if prefix old (c # s) then new @ replace old new (drop (length old) (c # s))
      else c # replace old new s)"
  by pat_completeness auto
termination
  by (relation "measure (\<lambda>(old, new, s). length s)") (auto simp: Suc_diff_le)

section \<open>The template engine\<close>

datatype exc_class =
    TemplateError | FileNotFoundError | OSError | UnicodeDecodeError
  | RuntimeError | SubprocessError | TypeError | OtherException

text \<open>\<open>issubclass\<close> on the classes above: \<open>FileNotFoundError\<close> derives from \<open>OSError\<close>
  (which \<open>IOError\<close> names too); the others are unrelated.\<close>

definition issubclass :: "exc_class \<Rightarrow> exc_class \<Rightarrow> bool" where
  "issubclass c base = (c = base \<or> (c = FileNotFoundError \<and> base = OSError))"

text \<open>
  The text of an exception, \<open>str(e)\<close>. The two messages that format a set keep the set:
  the order in which Python prints a set's members is not fixed.
\<close>

datatype message =
    NoValidPlaceholders         \<comment> \<open>\<open>"Template contains no valid placeholders"\<close>\<close>
  | MissingRequired "string set"  \<comment> \<open>\<open>f"Template missing required placeholders: {missing}"\<close>\<close>
  | MissingValues "string set"  \<comment> \<open>\<open>f"Missing values for placeholders: {missing_values}"\<close>\<close>
  | TemplateNotFound string     \<comment> \<open>\<open>f"Template file not found: {template_path}"\<close>\<close>
  | ErrorReadingTemplate string \<comment> \<open>\<open>f"Error reading template file: {e}"\<close>\<close>
  | ConfigNotFound string       \<comment> \<open>\<open>f"msmtp config not found: {msmtp_config}"\<close>\<close>
  | FailedToSend "string option" \<comment> \<open>\<open>f"Failed to send email: {error}"\<close>\<close>
  | RepeatedKeyword             \<comment> \<open>a call that gives one keyword twice\<close>
  | MultipleValuesForSelf       \<comment> \<open>\<open>"got multiple values for argument 'self'"\<close>\<close>
  | Text string                 \<comment> \<open>the text of an exception raised by a library call\<close>

text \<open>What a call raises: an \<open>Exception\<close> of some class, or \<open>SystemExit\<close>, which is a
  \<open>BaseException\<close> and no \<open>Exception\<close>.\<close>

datatype exn = Exception exc_class message | SystemExit int

record EmailTemplate =
  template :: string

definition required_placeholders :: "string set" where
  "required_placeholders = {''hostname'', ''topic'', ''body''}"

definition validate_template :: "EmailTemplate \<Rightarrow> exn + unit" where
  "validate_template self =
     (let found_placeholders = set (findall (template self)) in
        if found_placeholders = {} then Inl (Exception TemplateError NoValidPlaceholders)
        else
          (let missing = required_placeholders - found_placeholders in
             if missing \<noteq> {} then Inl (Exception TemplateError (MissingRequired missing))
             else Inr ()))"

text \<open>\<open>EmailTemplate(template_str)\<close>: \<open>__init__\<close> stores the string and validates it.\<close>

definition EmailTemplate_init :: "string \<Rightarrow> exn + EmailTemplate" where
  "EmailTemplate_init template_str =
     (let self = \<lparr>template = template_str\<rparr> in
        case validate_template self of
          Inl e \<Rightarrow> Inl e
        | Inr _ \<Rightarrow> Inr self)"

text \<open>The pattern of a key: the key between two \<open>@\<close> characters.\<close>

definition token :: "string \<Rightarrow> string" where
  "token key = CHR ''@'' # key @ ''@''"

text \<open>
  The keyword arguments of a call are a list of pairs, in the order the arguments are
  given. The values are strings, so \<open>str(value)\<close> is the value.
  The loop of \<open>safe_substitute\<close>, on the result accumulated so far:
\<close>

fun substitute_loop :: "(string \<times> string) list \<Rightarrow> string \<Rightarrow> string" where
  "substitute_loop [] result = result"
| "substitute_loop ((key, val) # kwargs) result =
     substitute_loop kwargs
       (if contains (token key) result then replace (token key) val result else result)"

text \<open>
  What Python needs to bind the keyword arguments of a call to the signature
  \<open>(self, **kwargs)\<close>: no keyword is given twice, and none is named \<open>self\<close>, the one
  parameter that the method call has already bound.
\<close>

definition keywords_bind :: "(string \<times> string) list \<Rightarrow> bool" where
  "keywords_bind kwargs = (distinct (map fst kwargs) \<and> ''self'' \<notin> set (map fst kwargs))"

text \<open>
  A call \<open>self.safe_substitute(**kwargs)\<close>: a \<open>TypeError\<close> where the arguments do not bind,
  before the body runs; the body otherwise. (A keyword that is written out twice in the
  call is refused when the program is compiled; one that comes twice through unpacked
  mappings raises the \<open>TypeError\<close>.)
\<close>

definition safe_substitute :: "EmailTemplate \<Rightarrow> (string \<times> string) list \<Rightarrow> exn + string" where
  "safe_substitute self kwargs =
     (if \<not> distinct (map fst kwargs) then Inl (Exception TypeError RepeatedKeyword)
      else if ''self'' \<in> set (map fst kwargs)
      then Inl (Exception TypeError MultipleValuesForSelf)
      else
        (let required_values = set (findall (template self));
             missing_values = required_values - set (map fst kwargs)
         in if missing_values \<noteq> {}
            then Inl (Exception TemplateError (MissingValues missing_values))
            else Inr (substitute_loop kwargs (template self))))"

text \<open>
  The specification's reading of substitution, for comparison with the loop above: the
  template is read once from the left, and wherever the token of a provided key starts,
  that key's value is written in its place; the values written are never read again.
\<close>

function spec_substitute :: "(string \<times> string) list \<Rightarrow> string \<Rightarrow> string" where
  "spec_substitute kwargs [] = []"
| "spec_substitute kwargs (c # s) =
     (case find (\<lambda>(key, val). prefix (token key) (c # s)) kwargs of
        None \<Rightarrow> c # spec_substitute kwargs s
      | Some (key, val) \<Rightarrow> val @ spec_substitute kwargs (drop (length (token key)) (c # s)))"
  by pat_completeness auto
termination
  by (relation "measure (\<lambda>(kwargs, s). length s)") (auto simp: token_def)

text \<open>
  A name occurs in a text as a placeholder when it is a run of one or more word
  characters and the text holds it between two \<open>@\<close> characters, wherever that is.
\<close>

definition occurs_in :: "string \<Rightarrow> string \<Rightarrow> bool" where
  "occurs_in name s = (name \<noteq> [] \<and> list_all is_word name \<and> contains (token name) s)"

text \<open>
  Where the occurrences of a pattern lie in a text cut in two, \<open>a @ b\<close>: every
  occurrence that starts in \<open>a\<close> also ends in \<open>a\<close>; an occurrence starts in \<open>v\<close>, the first
  part of \<open>v @ b\<close>.
\<close>

definition ends_within :: "string \<Rightarrow> string \<Rightarrow> string \<Rightarrow> bool" where
  "ends_within old a b =
     (\<forall>i\<in>{0..<length a}. prefix old (drop i (a @ b)) \<longrightarrow> i + length old \<le> length a)"

definition starts_inside :: "string \<Rightarrow> string \<Rightarrow> string \<Rightarrow> bool" where
  "starts_inside old v b = (\<exists>i\<in>{0..<length v}. prefix old (drop i (v @ b)))"

text \<open>
  A value \<open>v\<close> that stands between \<open>pre\<close> and \<open>post\<close> is out of reach of a pattern when no
  occurrence of the pattern runs from \<open>pre\<close> into \<open>v\<close> and none starts in \<open>v\<close>.
\<close>

definition untouched :: "string \<Rightarrow> string \<Rightarrow> string \<Rightarrow> string \<Rightarrow> bool" where
  "untouched old pre v post =
     (ends_within old pre (v @ post) \<and> \<not> starts_inside old v post)"

text \<open>
  The value is out of reach of the pattern of each key of the list at that key's turn,
  that is, in the text as the keys before it have left it.
\<close>

fun kept_verbatim :: "(string \<times> string) list \<Rightarrow> string \<Rightarrow> string \<Rightarrow> string \<Rightarrow> bool" where
  "kept_verbatim [] pre v post = True"
| "kept_verbatim ((key, val) # kwargs) pre v post =
     (untouched (token key) pre v post \<and>
      kept_verbatim kwargs (replace (token key) val pre) v (replace (token key) val post))"

section \<open>The surroundings of the program\<close>

text \<open>
  The file system, the mail agent and the argument parser are not code of the program.
  They are given by an environment, and what the program does to them is recorded as a
  list of events. The call of \<open>logging.basicConfig\<close> at import time runs before \<open>main\<close>
  and is not part of the model; the logging calls of \<open>main\<close> raise nothing.
\<close>

record args =
  topic :: string
  body :: string
  hostname :: "string option"

text \<open>\<open>open(path, 'r', encoding='utf-8')\<close> followed by \<open>file.read()\<close>.\<close>

datatype read_outcome =
    Contents string
  | ReadRaises exc_class string  \<comment> \<open>the class of the exception raised and its text\<close>

text \<open>\<open>subprocess.Popen([...])\<close> followed by \<open>process.communicate(input=content)\<close>.\<close>

datatype popen_outcome =
    Exited int string string     \<comment> \<open>\<open>returncode\<close>, \<open>stdout\<close>, \<open>stderr\<close>\<close>
  | PopenRaises exc_class string \<comment> \<open>the class of the exception raised and its text\<close>

record env =
  parse_args :: "int + args"
    \<comment> \<open>\<open>parser.parse_args()\<close>: the namespace, or the status of the \<open>SystemExit\<close> that
        \<open>argparse\<close> raises (2 after a usage error, 0 after \<open>--help\<close>)\<close>
  nodename :: "string option"
    \<comment> \<open>\<open>os.uname().nodename\<close>; \<open>None\<close> where \<open>os\<close> has no \<open>uname\<close> (\<open>AttributeError\<close>)\<close>
  computername :: "string option"
    \<comment> \<open>the environment variable \<open>COMPUTERNAME\<close>\<close>
  template_path :: string
    \<comment> \<open>\<open>os.path.join(script_dir, 'template.txt')\<close>\<close>
  msmtp_config :: string
    \<comment> \<open>\<open>os.path.expanduser('~/.msmtprc')\<close>\<close>
  isfile :: "string \<Rightarrow> bool"
    \<comment> \<open>\<open>os.path.isfile\<close>\<close>
  read_text :: "string \<Rightarrow> read_outcome"
  run_msmtp :: "string \<Rightarrow> popen_outcome"
    \<comment> \<open>the mail agent started on the configuration file and fed the content\<close>

datatype event =
    Log_debug string     \<comment> \<open>\<open>logging.debug(text)\<close>\<close>
  | Log_info string      \<comment> \<open>\<open>logging.info(text)\<close>\<close>
  | Log_error message    \<comment> \<open>\<open>logging.error(f"Script failed: {str(e)}")\<close>, holding \<open>str(e)\<close>\<close>
  | Print_stderr message \<comment> \<open>\<open>print(f"Error: {str(e)}", file=sys.stderr)\<close>, holding \<open>str(e)\<close>\<close>
  | Spawn string         \<comment> \<open>\<open>subprocess.Popen\<close> is called for the agent, to be fed this content\<close>

definition get_hostname :: "('a env_scheme) \<Rightarrow> string" where
  "get_hostname e =
     (case nodename e of
        Some n \<Rightarrow> n
      | None \<Rightarrow> (case computername e of Some c \<Rightarrow> c | None \<Rightarrow> ''unknown-host''))"

definition read_template :: "('a env_scheme) \<Rightarrow> string \<Rightarrow> exn + EmailTemplate" where
  "read_template e path =
     (if \<not> isfile e path then Inl (Exception FileNotFoundError (TemplateNotFound path))
      else
        (case read_text e path of
           Contents s \<Rightarrow> EmailTemplate_init s
         | ReadRaises c s \<Rightarrow>
             if issubclass c OSError \<or> issubclass c UnicodeDecodeError
             then Inl (Exception TemplateError (ErrorReadingTemplate s))
             else Inl (Exception c (Text s))))"

text \<open>\<open>send_email\<close> returns a pair or raises; the events are those of the call.\<close>

definition send_email ::
  "('a env_scheme) \<Rightarrow> string \<Rightarrow> (exn + bool \<times> string option) \<times> event list" where
  "send_email e content =
     (if \<not> isfile e (msmtp_config e)
      then (Inl (Exception RuntimeError (ConfigNotFound (msmtp_config e))), [])
      else
        (case run_msmtp e content of
           Exited returncode out err \<Rightarrow>
             (if returncode \<noteq> 0 then Inr (False, Some (strip err)) else Inr (True, None),
              [Spawn content])
         | PopenRaises c s \<Rightarrow>
             (if issubclass c SubprocessError then Inr (False, Some s)
              else Inl (Exception c (Text s)),
              [Spawn content])))"

text \<open>\<open>args.hostname or get_hostname()\<close>: \<open>None\<close> and the empty string are both false.\<close>

definition hostname_or_default :: "('a env_scheme) \<Rightarrow> args \<Rightarrow> string" where
  "hostname_or_default e a =
     (case hostname a of
        None \<Rightarrow> get_hostname e
      | Some h \<Rightarrow> if h = [] then get_hostname e else h)"

text \<open>The four \<open>logging.debug\<close> calls on the input parameters.\<close>

definition debug_lines :: "('a env_scheme) \<Rightarrow> args \<Rightarrow> event list" where
  "debug_lines e a =
     [Log_debug ''Input parameters:'',
      Log_debug (''  Topic: '' @ topic a),
      Log_debug (''  Body: '' @ body a),
      Log_debug (''  Hostname: '' @ hostname_or_default e a)]"

text \<open>The keyword arguments of the call of \<open>safe_substitute\<close> in \<open>main\<close>, in its order.\<close>

definition main_kwargs :: "('a env_scheme) \<Rightarrow> args \<Rightarrow> (string \<times> string) list" where
  "main_kwargs e a =
     [(''hostname'', hostname_or_default e a), (''topic'', topic a), (''body'', body a)]"

text \<open>The body of the \<open>try\<close> block of \<open>main\<close>: what it returns or raises, and its events.\<close>

definition main_try :: "('a env_scheme) \<Rightarrow> (exn + int) \<times> event list" where
  "main_try e =
     (case parse_args e of
        Inl status \<Rightarrow> (Inl (SystemExit status), [])
      | Inr a \<Rightarrow>
          (case read_template e (template_path e) of
             Inl x \<Rightarrow> (Inl x, debug_lines e a)
           | Inr t \<Rightarrow>
               (case safe_substitute t (main_kwargs e a) of
                  Inl x \<Rightarrow> (Inl x, debug_lines e a)
                | Inr email_content \<Rightarrow>
                    (case send_email e email_content of
                       (Inl x, evs) \<Rightarrow> (Inl x, debug_lines e a @ evs)
                     | (Inr (success, error), evs) \<Rightarrow>
                         if \<not> success
                         then (Inl (Exception RuntimeError (FailedToSend error)),
                               debug_lines e a @ evs)
                         else (Inr 0,
                               debug_lines e a @ evs @
                                 [Log_info ''Email sent successfully''])))))"

text \<open>\<open>main\<close>: the \<open>try\<close> block under \<open>except Exception\<close>, which does not catch
  \<open>SystemExit\<close>.\<close>

definition main :: "('a env_scheme) \<Rightarrow> (exn + int) \<times> event list" where
  "main e =
     (case main_try e of
        (Inr code, evs) \<Rightarrow> (Inr code, evs)
      | (Inl (Exception c m), evs) \<Rightarrow> (Inr 1, evs @ [Log_error m, Print_stderr m])
      | (Inl (SystemExit status), evs) \<Rightarrow> (Inl (SystemExit status), evs))"

text \<open>\<open>sys.exit(main())\<close>: the exit status of the process. An exception that reaches the
  top ends the interpreter with status 1.\<close>

definition exit_status :: "('a env_scheme) \<Rightarrow> int" where
  "exit_status e =
     (case fst (main e) of
        Inr code \<Rightarrow> code
      | Inl (SystemExit status) \<Rightarrow> status
      | Inl (Exception c m) \<Rightarrow> 1)"

section \<open>Example runs\<close>

text \<open>
  A run in which everything is in place: the arguments of scenario A, the template and
  the agent's configuration present, and an agent that accepts the message.
\<close>

definition example_env :: env where
  "example_env =
     \<lparr>parse_args = Inr \<lparr>topic = ''Disk full'', body = ''Check /var'', hostname = Some ''node1''\<rparr>,
      nodename = Some ''localhost'',
      computername = None,
      template_path = ''/opt/notify/template.txt'',
      msmtp_config = ''/root/.msmtprc'',
      isfile = (\<lambda>p. p = ''/opt/notify/template.txt'' \<or> p = ''/root/.msmtprc''),
      read_text = (\<lambda>p. Contents ''Subject: @topic@ / @body@ on @hostname@''),
      run_msmtp = (\<lambda>content. Exited 0 [] [])\<rparr>"

section \<open>Scanning and replacing\<close>

lemma contains_sublist: "contains pat s = sublist pat s"
proof (induction s)
  case Nil
  show ?case by simp
next
  case (Cons c s)
  show ?case
  proof (cases pat)
    case Nil
    then show ?thesis by simp
  next
    case (Cons p ps)
    then show ?thesis using Cons.IH by (simp add: sublist_Cons_right)
  qed
qed

lemma contains_prefix: "prefix pat s \<Longrightarrow> contains pat s"
  by (cases s) simp_all

lemma contains_append_left: "contains pat s \<Longrightarrow> contains pat (pre @ s)"
  by (induction pre) simp_all

lemma is_word_at: "\<not> is_word CHR ''@''"
  by (simp add: is_word_def)

lemma match_token_Some:
  assumes "match_token s = Some (name, rest)"
  shows "s = token name @ rest \<and> name \<noteq> [] \<and> (\<forall>c\<in>set name. is_word c)"
proof -
  from assms obtain r where s: "s = CHR ''@'' # r"
    by (cases s) (auto simp: match_token_def split: if_splits)
  from assms s have d: "dropWhile is_word r = CHR ''@'' # rest"
    and n: "name = takeWhile is_word r" and ne: "name \<noteq> []"
    by (auto simp: match_token_def split: if_splits list.splits)
  have "r = takeWhile is_word r @ dropWhile is_word r" by simp
  with d n have "r = name @ CHR ''@'' # rest" by simp
  with s have "s = token name @ rest" by (simp add: token_def)
  moreover from n have "\<forall>c\<in>set name. is_word c"
    by (auto dest: set_takeWhileD)
  ultimately show ?thesis using ne by simp
qed

lemma match_token_token:
  assumes "name \<noteq> []" and "\<forall>c\<in>set name. is_word c"
  shows "match_token (token name @ rest) = Some (name, rest)"
proof -
  have t: "takeWhile is_word (name @ CHR ''@'' # rest) = name"
    using assms(2) by (simp add: takeWhile_append2 is_word_at)
  have d: "dropWhile is_word (name @ CHR ''@'' # rest) = CHR ''@'' # rest"
    using assms(2) by (simp add: dropWhile_append2 is_word_at)
  show ?thesis
    using assms(1) by (simp add: match_token_def token_def t d)
qed

lemma findall_sound:
  "name \<in> set (findall s) \<Longrightarrow>
   name \<noteq> [] \<and> (\<forall>c\<in>set name. is_word c) \<and> contains (token name) s"
proof (induction s rule: findall.induct)
  case 1
  then show ?case by simp
next
  case (2 c r)
  show ?case
  proof (cases "match_token (c # r)")
    case None
    with 2 have "name \<noteq> [] \<and> (\<forall>c\<in>set name. is_word c) \<and> contains (token name) r"
      by simp
    then show ?thesis by simp
  next
    case (Some p)
    obtain n rest where p: "p = (n, rest)" by (cases p)
    from Some p have m: "c # r = token n @ rest \<and> n \<noteq> [] \<and> (\<forall>c\<in>set n. is_word c)"
      by (simp add: match_token_Some)
    from 2(3) Some p have "name = n \<or> name \<in> set (findall rest)" by simp
    then show ?thesis
    proof
      assume "name = n"
      with m show ?thesis
        by (simp add: contains_prefix)
    next
      assume "name \<in> set (findall rest)"
      with 2(2) Some p
      have ih: "name \<noteq> [] \<and> (\<forall>c\<in>set name. is_word c) \<and> contains (token name) rest"
        by simp
      then have "contains (token name) (token n @ rest)"
        by (simp add: contains_append_left)
      with ih m show ?thesis by simp
    qed
  qed
qed

lemma findall_literal:
  "CHR ''@'' \<notin> set lit \<Longrightarrow> findall (lit @ s) = findall s"
proof (induction lit)
  case Nil
  show ?case by simp
next
  case (Cons c lit)
  then have "match_token (c # lit @ s) = None"
    by (auto simp: match_token_def)
  with Cons show ?case by simp
qed

lemma findall_token:
  assumes "CHR ''@'' \<notin> set lit" and "name \<noteq> []" and "\<forall>c\<in>set name. is_word c"
  shows "findall (lit @ token name @ rest) = name # findall rest"
proof -
  have "match_token (CHR ''@'' # name @ CHR ''@'' # rest) = Some (name, rest)"
    using match_token_token [OF assms(2,3), of rest] by (simp add: token_def)
  then have "findall (token name @ rest) = name # findall rest"
    by (simp add: token_def)
  with assms(1) show ?thesis by (simp add: findall_literal)
qed

lemma occurs_in_found: "name \<in> set (findall s) \<Longrightarrow> occurs_in name s"
  using findall_sound [of name s] by (simp add: occurs_in_def list_all_iff)

lemma last_at_unique:
  "xs @ a # ys = m @ [a] \<Longrightarrow> a \<notin> set m \<Longrightarrow> xs = m \<and> ys = []"
proof (induction xs arbitrary: m)
  case Nil
  then show ?case by (cases m) auto
next
  case (Cons x xs)
  then show ?case by (cases m) auto
qed

text \<open>
  An occurrence of a token is captured, unless its opening \<open>@\<close> is the closing \<open>@\<close> of a
  match that was captured just before.
\<close>

lemma findall_complete:
  assumes "name \<noteq> []" and "\<forall>c\<in>set name. is_word c"
  shows "s = pre @ token name @ post \<Longrightarrow>
         name \<in> set (findall s) \<or>
         (\<exists>pre' m. pre = pre' @ CHR ''@'' # m \<and> m \<in> set (findall s))"
proof (induction s arbitrary: pre rule: findall.induct)
  case 1
  then show ?case by (simp add: token_def)
next
  case (2 c r)
  show ?case
  proof (cases pre)
    case Nil
    with 2(3) have "match_token (c # r) = Some (name, post)"
      using match_token_token [OF assms, of post] by simp
    then show ?thesis by simp
  next
    case (Cons p pre2)
    with 2(3) have r: "r = pre2 @ token name @ post" and p: "p = c" by simp_all
    show ?thesis
    proof (cases "match_token (c # r)")
      case None
      from 2(1) [OF None r] None Cons show ?thesis
        by (auto intro: exI [of _ "p # pre'" for pre'])
    next
      case (Some q)
      obtain m rest where q: "q = (m, rest)" by (cases q)
      from Some q have t: "c # r = token m @ rest" and mw: "\<forall>c\<in>set m. is_word c"
        by (simp_all add: match_token_Some)
      from mw have mat: "CHR ''@'' \<notin> set m"
        using is_word_at by auto
      from 2(3) t have "pre @ token name @ post = token m @ rest" by simp
      then obtain us where
        "(pre = token m @ us \<and> us @ token name @ post = rest) \<or>
         (pre @ us = token m \<and> token name @ post = us @ rest)"
        by (auto simp: append_eq_append_conv2)
      then show ?thesis
      proof
        assume a: "pre = token m @ us \<and> us @ token name @ post = rest"
        then have "rest = us @ token name @ post" by simp
        from 2(2) [OF Some q [symmetric] this] Some q a show ?thesis
          by (auto intro: exI [of _ "token m @ pre'" for pre'])
      next
        assume b: "pre @ us = token m \<and> token name @ post = us @ rest"
        show ?thesis
        proof (cases us)
          case Nil
          with b have "rest = [] @ token name @ post" by simp
          from 2(2) [OF Some q [symmetric] this] Some q b Nil show ?thesis
            by (auto intro: exI [of _ "token m @ pre'" for pre'])
        next
          case (Cons u us')
          with b have u: "u = CHR ''@''" by (simp add: token_def)
          from b Cons u \<open>pre = p # pre2\<close> have "pre2 @ CHR ''@'' # us' = m @ [CHR ''@'']"
            by (simp add: token_def)
          from last_at_unique [OF this mat] have "pre2 = m" by simp
          with b \<open>pre = p # pre2\<close> Cons u have "pre = [] @ CHR ''@'' # m"
            by (simp add: token_def)
          moreover from Some q have "m \<in> set (findall (c # r))" by simp
          ultimately show ?thesis by blast
        qed
      qed
    qed
  qed
qed

text \<open>A match consumes its closing \<open>@\<close>, so a token that starts there is not found.\<close>

lemma findall_overlap: "findall ''@a@b@'' = [''a'']"
  by code_simp

lemma token_not_Nil: "token key \<noteq> []"
  by (simp add: token_def)

lemma replace_absent:
  "old \<noteq> [] \<Longrightarrow> \<not> contains old s \<Longrightarrow> replace old new s = s"
  by (induction s) auto

lemma substitute_step:
  "(if contains (token key) r then replace (token key) v r else r) = replace (token key) v r"
  by (simp add: replace_absent token_not_Nil)

lemma substitute_loop_append:
  "substitute_loop (kw1 @ kw2) r = substitute_loop kw2 (substitute_loop kw1 r)"
  by (induction kw1 r rule: substitute_loop.induct) simp_all

lemma substitute_loop_foldl:
  "substitute_loop kwargs r = foldl (\<lambda>acc (key, v). replace (token key) v acc) r kwargs"
  by (induction kwargs r rule: substitute_loop.induct) (simp_all add: substitute_step)

lemma substitute_loop_absent:
  "\<forall>kv\<in>set kwargs. \<not> contains (token (fst kv)) r \<Longrightarrow> substitute_loop kwargs r = r"
  by (induction kwargs) auto

lemma safe_substitute_covered:
  "keywords_bind kwargs \<Longrightarrow> set (findall (template self)) \<subseteq> set (map fst kwargs) \<Longrightarrow>
   safe_substitute self kwargs = Inr (substitute_loop kwargs (template self))"
  by (simp add: safe_substitute_def keywords_bind_def Let_def)

lemma safe_substitute_uncovered:
  "keywords_bind kwargs \<Longrightarrow> \<not> set (findall (template self)) \<subseteq> set (map fst kwargs) \<Longrightarrow>
   safe_substitute self kwargs =
     Inl (Exception TemplateError
            (MissingValues (set (findall (template self)) - set (map fst kwargs))))"
  by (simp add: safe_substitute_def keywords_bind_def Let_def)

lemma safe_substitute_unbound:
  "\<not> keywords_bind kwargs \<Longrightarrow> \<exists>m. safe_substitute self kwargs = Inl (Exception TypeError m)"
  by (simp add: safe_substitute_def keywords_bind_def)

lemma safe_substitute_self:
  "distinct (map fst kwargs) \<Longrightarrow> ''self'' \<in> set (map fst kwargs) \<Longrightarrow>
   safe_substitute self kwargs = Inl (Exception TypeError MultipleValuesForSelf)"
  by (simp add: safe_substitute_def)

lemma keywords_bind_remove:
  "keywords_bind (kw1 @ (key, v) # kw2) \<Longrightarrow> keywords_bind (kw1 @ kw2)"
  by (auto simp: keywords_bind_def)

lemma EmailTemplate_init_cases:
  "EmailTemplate_init T =
     (if set (findall T) = {} then Inl (Exception TemplateError NoValidPlaceholders)
      else if \<not> required_placeholders \<subseteq> set (findall T)
      then Inl (Exception TemplateError (MissingRequired (required_placeholders - set (findall T))))
      else Inr \<lparr>template = T\<rparr>)"
  by (simp add: EmailTemplate_init_def validate_template_def Let_def)

lemma replace_token_here:
  "replace (token key) v (token key @ s) = v @ replace (token key) v s"
  by (simp add: token_def)

lemma safe_substitute_split:
  assumes "keywords_bind (kw1 @ (key, v) # kw2)"
    and "set (findall (template self)) \<subseteq> set (map fst (kw1 @ (key, v) # kw2))"
  shows "safe_substitute self (kw1 @ (key, v) # kw2) =
           Inr (substitute_loop kw2 (replace (token key) v (substitute_loop kw1 (template self))))"
  using assms
  by (simp add: safe_substitute_covered substitute_loop_append substitute_step del: findall.simps)

lemma substitute_loop_extra_first:
  "\<forall>kv\<in>set extra. \<not> contains (token (fst kv)) r \<Longrightarrow>
   substitute_loop (extra @ kwargs) r = substitute_loop kwargs r"
  by (simp add: substitute_loop_append substitute_loop_absent)

lemma ends_within_Cons:
  "ends_within old (c # a) b \<Longrightarrow> ends_within old a b"
proof -
  assume h: "ends_within old (c # a) b"
  show ?thesis
    unfolding ends_within_def
  proof (intro ballI impI)
    fix i assume i: "i \<in> {0..<length a}" and p: "prefix old (drop i (a @ b))"
    from i have "Suc i \<in> {0..<length (c # a)}" by simp
    moreover from p have "prefix old (drop (Suc i) ((c # a) @ b))" by simp
    ultimately have "Suc i + length old \<le> length (c # a)"
      using h unfolding ends_within_def by blast
    then show "i + length old \<le> length a" by simp
  qed
qed

lemma ends_within_drop:
  "ends_within old a b \<Longrightarrow> ends_within old (drop n a) b"
proof (induction n arbitrary: a)
  case 0
  then show ?case by simp
next
  case (Suc n)
  show ?case
  proof (cases a)
    case Nil
    then show ?thesis by (simp add: ends_within_def)
  next
    case (Cons c a')
    with Suc.prems have "ends_within old a' b" by (auto dest: ends_within_Cons)
    from Suc.IH [OF this] Cons show ?thesis by simp
  qed
qed

lemma prefix_within:
  "prefix old (a @ b) \<Longrightarrow> length old \<le> length a \<Longrightarrow> prefix old a"
  by (metis prefix_length_prefix prefixI)

text \<open>Replacing in a text cut in two, where no occurrence crosses the cut.\<close>

lemma replace_append:
  assumes "old \<noteq> []"
  shows "ends_within old a b \<Longrightarrow> replace old new (a @ b) = replace old new a @ replace old new b"
proof (induction a rule: length_induct)
  case (1 a)
  show ?case
  proof (cases a)
    case Nil
    with assms show ?thesis by simp
  next
    case (Cons c a')
    show ?thesis
    proof (cases "prefix old (a @ b)")
      case True
      from 1(2) Cons True have le: "length old \<le> length a"
        unfolding ends_within_def by (auto dest: bspec [of _ _ 0])
      with True have pa: "prefix old a" by (rule prefix_within)
      have sh: "length (drop (length old) a) < length a"
        using assms Cons by simp
      from 1(2) have "ends_within old (drop (length old) a) b"
        by (rule ends_within_drop)
      with 1(1) sh have ih: "replace old new (drop (length old) a @ b) =
           replace old new (drop (length old) a) @ replace old new b"
        by blast
      have d: "drop (length old) (a @ b) = drop (length old) a @ b"
        using le by simp
      from True pa assms Cons have
        "replace old new (a @ b) = new @ replace old new (drop (length old) (a @ b))"
        "replace old new a = new @ replace old new (drop (length old) a)"
        by auto
      with ih d show ?thesis by simp
    next
      case False
      then have npa: "\<not> prefix old a"
        by (auto simp: prefix_def)
      from 1(2) Cons have "ends_within old a' b" by (auto dest: ends_within_Cons)
      with 1(1) Cons have ih: "replace old new (a' @ b) = replace old new a' @ replace old new b"
        by simp
      from False npa assms Cons have
        "replace old new (a @ b) = c # replace old new (a' @ b)"
        "replace old new a = c # replace old new a'"
        by auto
      with ih show ?thesis by simp
    qed
  qed
qed

lemma replace_skip:
  assumes "old \<noteq> []"
  shows "\<not> starts_inside old v b \<Longrightarrow> replace old new (v @ b) = v @ replace old new b"
proof (induction v)
  case Nil
  show ?case by simp
next
  case (Cons c v)
  from Cons.prems have n0: "\<not> prefix old ((c # v) @ b)"
    unfolding starts_inside_def by (auto dest: bspec [of _ _ 0])
  have "\<not> starts_inside old v b"
  proof
    assume "starts_inside old v b"
    then obtain i where "i < length v" and "prefix old (drop i (v @ b))"
      unfolding starts_inside_def by auto
    then have "Suc i \<in> {0..<length (c # v)}" and "prefix old (drop (Suc i) ((c # v) @ b))"
      by simp_all
    with Cons.prems show False
      unfolding starts_inside_def by blast
  qed
  from Cons.IH [OF this] n0 assms show ?case by simp
qed

lemma replace_untouched:
  assumes "old \<noteq> []" and "untouched old pre v post"
  shows "replace old new (pre @ v @ post) = replace old new pre @ v @ replace old new post"
  using assms by (simp add: untouched_def replace_append replace_skip)

lemma substitute_loop_kept:
  "kept_verbatim kwargs pre v post \<Longrightarrow>
   substitute_loop kwargs (pre @ v @ post) =
     substitute_loop kwargs pre @ v @ substitute_loop kwargs post"
proof (induction kwargs arbitrary: pre post)
  case Nil
  show ?case by simp
next
  case (Cons kv kwargs)
  obtain key val where kv: "kv = (key, val)" by (cases kv)
  from Cons.prems kv have u: "untouched (token key) pre v post"
    and k: "kept_verbatim kwargs (replace (token key) val pre) v (replace (token key) val post)"
    by simp_all
  from u have "replace (token key) val (pre @ v @ post) =
      replace (token key) val pre @ v @ replace (token key) val post"
    by (simp add: replace_untouched token_not_Nil)
  with Cons.IH [OF k] kv show ?case
    by (simp add: substitute_step)
qed

lemma replace_at_token:
  assumes "ends_within (token key) pre (token key @ post)"
  shows "replace (token key) v (pre @ token key @ post) =
           replace (token key) v pre @ v @ replace (token key) v post"
  using assms by (simp add: replace_append token_not_Nil replace_token_here)

section \<open>Construction of the engine\<close>

text \<open>
  That the three required names occur in a template as placeholders is not enough for
  the constructor: in \<open>@hostname@topic@body@\<close> the opening \<open>@\<close> of \<open>@topic@\<close> is the closing
  \<open>@\<close> of \<open>@hostname@\<close>, the scan does not capture \<open>topic\<close>, and the constructor reports it
  missing.
\<close>

theorem EmailTemplate_init_overlap_counterexample:
  "occurs_in ''hostname'' ''@hostname@topic@body@'' \<and>
   occurs_in ''topic'' ''@hostname@topic@body@'' \<and>
   occurs_in ''body'' ''@hostname@topic@body@'' \<and>
   EmailTemplate_init ''@hostname@topic@body@'' =
     Inl (Exception TemplateError (MissingRequired {''topic''}))"
  by code_simp

text \<open>
  Claim C4, amended. Constructing the engine on a template \<open>T\<close> succeeds exactly when the
  set of names captured by the scan of \<open>T\<close> for \<open>@(\w+)@\<close>, from the left and resuming after
  the closing \<open>@\<close> of each match, is not empty and holds \<open>hostname\<close>, \<open>topic\<close> and \<open>body\<close>; the
  engine built holds \<open>T\<close>. When no name is captured the error is the one of a template
  with no valid placeholders; otherwise the error names the required names that were
  not captured, and no others. Every captured name occurs in \<open>T\<close> as a placeholder, and
  the name of an occurrence of a placeholder in \<open>T\<close> is captured unless the text before
  the occurrence ends with \<open>@\<close> and a captured name, so that the opening \<open>@\<close> of the
  occurrence closes the token of that name.
\<close>

theorem EmailTemplate_init_validation:
  "((\<exists>self. EmailTemplate_init T = Inr self) \<longleftrightarrow>
      set (findall T) \<noteq> {} \<and> required_placeholders \<subseteq> set (findall T)) \<and>
   (\<forall>self. EmailTemplate_init T = Inr self \<longrightarrow> self = \<lparr>template = T\<rparr>) \<and>
   (set (findall T) = {} \<longrightarrow>
      EmailTemplate_init T = Inl (Exception TemplateError NoValidPlaceholders)) \<and>
   (set (findall T) \<noteq> {} \<and> \<not> required_placeholders \<subseteq> set (findall T) \<longrightarrow>
      EmailTemplate_init T =
        Inl (Exception TemplateError
               (MissingRequired (required_placeholders - set (findall T))))) \<and>
   (\<forall>name\<in>set (findall T). occurs_in name T) \<and>
   (\<forall>pre name post.
      T = pre @ token name @ post \<and> name \<noteq> [] \<and> list_all is_word name \<longrightarrow>
      name \<in> set (findall T) \<or>
      (\<exists>pre' m. pre = pre' @ CHR ''@'' # m \<and> m \<in> set (findall T)))"
proof (intro conjI)
  show "(\<exists>self. EmailTemplate_init T = Inr self) \<longleftrightarrow>
      set (findall T) \<noteq> {} \<and> required_placeholders \<subseteq> set (findall T)"
    by (auto simp: EmailTemplate_init_cases split: if_splits)
  show "\<forall>self. EmailTemplate_init T = Inr self \<longrightarrow> self = \<lparr>template = T\<rparr>"
    by (auto simp: EmailTemplate_init_cases split: if_splits)
  show "set (findall T) = {} \<longrightarrow>
      EmailTemplate_init T = Inl (Exception TemplateError NoValidPlaceholders)"
    by (simp add: EmailTemplate_init_cases del: findall.simps)
  show "set (findall T) \<noteq> {} \<and> \<not> required_placeholders \<subseteq> set (findall T) \<longrightarrow>
      EmailTemplate_init T =
        Inl (Exception TemplateError
               (MissingRequired (required_placeholders - set (findall T))))"
    by (simp add: EmailTemplate_init_cases del: findall.simps)
  show "\<forall>name\<in>set (findall T). occurs_in name T"
    by (simp add: occurs_in_found)
  show "\<forall>pre name post.
      T = pre @ token name @ post \<and> name \<noteq> [] \<and> list_all is_word name \<longrightarrow>
      name \<in> set (findall T) \<or>
      (\<exists>pre' m. pre = pre' @ CHR ''@'' # m \<and> m \<in> set (findall T))"
    using findall_complete by (simp add: list_all_iff)
qed

theorem EmailTemplate_init_validation_witness:
  "EmailTemplate_init ''Subject: @topic@ / @body@ on @hostname@'' =
     Inr \<lparr>template = ''Subject: @topic@ / @body@ on @hostname@''\<rparr> \<and>
   EmailTemplate_init ''a@x, b@y'' = Inl (Exception TemplateError NoValidPlaceholders) \<and>
   EmailTemplate_init ''@hostname@ @topic@ @user@'' =
     Inl (Exception TemplateError (MissingRequired {''body''})) \<and>
   occurs_in ''user'' ''@hostname@ @topic@ @user@'' \<and>
   ''body'' \<in> set (findall ''a@x, @body@'')"
proof -
  let ?T1 = "''Subject: @topic@ / @body@ on @hostname@''"
  let ?T2 = "''a@x, b@y''"
  let ?T3 = "''@hostname@ @topic@ @user@''"
  let ?T4 = "''a@x, @body@''"
  have f1: "findall ?T1 = [''topic'', ''body'', ''hostname'']"
    by code_simp
  have f2: "findall ?T2 = []"
    by code_simp
  have f3: "findall ?T3 = [''hostname'', ''topic'', ''user'']"
    by code_simp
  have f4: "findall ?T4 = [''body'']"
    by code_simp
  have ok1: "set (findall ?T1) \<noteq> {} \<and> required_placeholders \<subseteq> set (findall ?T1)"
    unfolding f1 by (simp add: required_placeholders_def)
  have none2: "set (findall ?T2) = {}"
    unfolding f2 by simp
  have bad3: "set (findall ?T3) \<noteq> {} \<and> \<not> required_placeholders \<subseteq> set (findall ?T3)"
    unfolding f3 by (simp add: required_placeholders_def)
  have d3: "required_placeholders - set (findall ?T3) = {''body''}"
    unfolding f3 by (auto simp: required_placeholders_def)
  have u3: "''user'' \<in> set (findall ?T3)"
    unfolding f3 by simp
  have o4: "?T4 = ''a@x, '' @ token ''body'' @ [] \<and> ''body'' \<noteq> [] \<and> list_all is_word ''body''"
    by code_simp
  have n4: "\<not> (\<exists>pre' m. ''a@x, '' = pre' @ CHR ''@'' # m \<and> m \<in> set (findall ?T4))"
  proof
    assume "\<exists>pre' m. ''a@x, '' = pre' @ CHR ''@'' # m \<and> m \<in> set (findall ?T4)"
    then obtain pre' where e: "''a@x, '' = pre' @ CHR ''@'' # ''body''"
      unfolding f4 by auto
    then have "length ''a@x, '' = length (pre' @ CHR ''@'' # ''body'')"
      by (rule arg_cong)
    then have "pre' = []" by simp
    with e show False by simp
  qed
  from ok1 EmailTemplate_init_validation [of ?T1]
  have "EmailTemplate_init ?T1 = Inr \<lparr>template = ?T1\<rparr>"
    by blast
  moreover from none2 EmailTemplate_init_validation [of ?T2]
  have "EmailTemplate_init ?T2 = Inl (Exception TemplateError NoValidPlaceholders)"
    by blast
  moreover from bad3 EmailTemplate_init_validation [of ?T3]
  have "EmailTemplate_init ?T3 =
     Inl (Exception TemplateError (MissingRequired (required_placeholders - set (findall ?T3))))"
    by blast
  moreover from u3 EmailTemplate_init_validation [of ?T3]
  have "occurs_in ''user'' ?T3"
    by blast
  moreover from o4 n4 EmailTemplate_init_validation [of ?T4]
  have "''body'' \<in> set (findall ?T4)"
    by blast
  ultimately show ?thesis
    unfolding d3 by blast
qed

section \<open>Substitution with values missing\<close>

text \<open>
  A call whose keys do not cover the captured names does not always raise a
  \<open>TemplateError\<close>: with a key named \<open>self\<close> the arguments do not bind to the signature
  \<open>(self, **kwargs)\<close>, and Python raises a \<open>TypeError\<close> before the body of the method runs.
\<close>

theorem safe_substitute_self_key_counterexample:
  "EmailTemplate_init ''@hostname@ @topic@ @body@'' =
     Inr \<lparr>template = ''@hostname@ @topic@ @body@''\<rparr> \<and>
   \<not> set (findall (template \<lparr>template = ''@hostname@ @topic@ @body@''\<rparr>))
       \<subseteq> set (map fst [(''hostname'', ''H''), (''self'', ''S'')]) \<and>
   safe_substitute \<lparr>template = ''@hostname@ @topic@ @body@''\<rparr>
       [(''hostname'', ''H''), (''self'', ''S'')] =
     Inl (Exception TypeError MultipleValuesForSelf)"
  by code_simp

text \<open>
  Claim C5, amended. For a template that was constructed with success, and a call whose
  keyword arguments bind (no key is named \<open>self\<close>, none is given twice) and whose keys do
  not cover the names captured in the text the template holds when \<open>safe_substitute\<close>
  runs, the call raises a \<open>TemplateError\<close> that names the captured names without a
  value, and no others; no text is returned. A call with a key named \<open>self\<close> raises a
  \<open>TypeError\<close> instead, whatever its other keys.
\<close>

theorem safe_substitute_missing_values:
  assumes "EmailTemplate_init T = Inr self"
  shows "(keywords_bind kwargs \<and> \<not> set (findall (template self)) \<subseteq> set (map fst kwargs) \<longrightarrow>
            safe_substitute self kwargs =
              Inl (Exception TemplateError
                     (MissingValues (set (findall (template self)) - set (map fst kwargs))))) \<and>
         (distinct (map fst kwargs) \<and> ''self'' \<in> set (map fst kwargs) \<longrightarrow>
            safe_substitute self kwargs = Inl (Exception TypeError MultipleValuesForSelf))"
  by (simp add: safe_substitute_uncovered safe_substitute_self del: findall.simps)

theorem safe_substitute_missing_values_witness:
  "EmailTemplate_init ''@hostname@ @topic@ @body@'' =
     Inr \<lparr>template = ''@hostname@ @topic@ @body@''\<rparr> \<and>
   safe_substitute \<lparr>template = ''@hostname@ @topic@ @body@''\<rparr>
       [(''hostname'', ''node1''), (''body'', ''Check /var'')] =
     Inl (Exception TemplateError (MissingValues {''topic''})) \<and>
   safe_substitute \<lparr>template = ''@hostname@ @topic@ @body@''\<rparr>
       [(''hostname'', ''node1''), (''self'', ''S''), (''body'', ''Check /var'')] =
     Inl (Exception TypeError MultipleValuesForSelf)"
proof -
  let ?T = "''@hostname@ @topic@ @body@''"
  let ?kw = "[(''hostname'', ''node1''), (''body'', ''Check /var'')]"
  let ?ks = "[(''hostname'', ''node1''), (''self'', ''S''), (''body'', ''Check /var'')]"
  have f: "findall ?T = [''hostname'', ''topic'', ''body'']"
    by code_simp
  have i: "EmailTemplate_init ?T = Inr \<lparr>template = ?T\<rparr>"
    unfolding EmailTemplate_init_cases f by (simp add: required_placeholders_def)
  have t: "template \<lparr>template = ?T\<rparr> = ?T"
    by simp
  have b: "keywords_bind ?kw"
    by (simp add: keywords_bind_def)
  have n: "\<not> set (findall (template \<lparr>template = ?T\<rparr>)) \<subseteq> set (map fst ?kw)"
    unfolding t f by simp
  have d: "set (findall (template \<lparr>template = ?T\<rparr>)) - set (map fst ?kw) = {''topic''}"
    unfolding t f by auto
  have s: "distinct (map fst ?ks) \<and> ''self'' \<in> set (map fst ?ks)"
    by simp
  from safe_substitute_missing_values [OF i, of ?kw] b n
  have "safe_substitute \<lparr>template = ?T\<rparr> ?kw =
      Inl (Exception TemplateError
             (MissingValues (set (findall (template \<lparr>template = ?T\<rparr>)) - set (map fst ?kw))))"
    by blast
  moreover from safe_substitute_missing_values [OF i, of ?ks] s
  have "safe_substitute \<lparr>template = ?T\<rparr> ?ks = Inl (Exception TypeError MultipleValuesForSelf)"
    by blast
  ultimately show ?thesis
    using i unfolding d by blast
qed

section \<open>Substitution with every value given\<close>

text \<open>
  The reading of the specification, one pass over the template with the values written
  verbatim, fails on the code where a value holds the token of a key that comes later:
  on \<open>@hostname@:@topic@:@body@\<close> with \<open>topic\<close> set to \<open>@body@\<close>, the code returns
  \<open>H:B:B\<close>, the one pass \<open>H:@body@:B\<close>.
\<close>

theorem safe_substitute_spec_counterexample:
  "set (findall ''@hostname@:@topic@:@body@'')
     \<subseteq> set (map fst [(''hostname'', ''H''), (''topic'', ''@body@''), (''body'', ''B'')]) \<and>
   safe_substitute \<lparr>template = ''@hostname@:@topic@:@body@''\<rparr>
       [(''hostname'', ''H''), (''topic'', ''@body@''), (''body'', ''B'')] = Inr ''H:B:B'' \<and>
   spec_substitute [(''hostname'', ''H''), (''topic'', ''@body@''), (''body'', ''B'')]
       ''@hostname@:@topic@:@body@'' = ''H:@body@:B'' \<and>
   safe_substitute \<lparr>template = ''@hostname@:@topic@:@body@''\<rparr>
       [(''hostname'', ''H''), (''topic'', ''@body@''), (''body'', ''B'')]
     \<noteq> Inr (spec_substitute [(''hostname'', ''H''), (''topic'', ''@body@''), (''body'', ''B'')]
              ''@hostname@:@topic@:@body@'')"
  by code_simp

text \<open>
  Claim C1, amended. For a call whose keyword arguments bind (no key is named \<open>self\<close>,
  none is given twice) and whose keys cover every name captured in the template,
  \<open>safe_substitute\<close> succeeds, and it returns the template after the replacements of the
  keys, one key after another in the order of the arguments: each replaces every
  occurrence of its token, found from the left without overlap, in the text that the
  keys before it have produced. On \<open>@hostname@:@topic@:@body@\<close> with \<open>H\<close>, \<open>Top\<close> and \<open>B\<close> the
  result is \<open>H:Top:B\<close>. A call with a key named \<open>self\<close> raises a \<open>TypeError\<close>, so a template
  that holds the placeholder \<open>@self@\<close> has no call that succeeds.
\<close>

theorem safe_substitute_sequential:
  "(keywords_bind kwargs \<and> set (findall (template self)) \<subseteq> set (map fst kwargs) \<longrightarrow>
      safe_substitute self kwargs =
        Inr (foldl (\<lambda>acc (key, v). replace (token key) v acc) (template self) kwargs)) \<and>
   (''self'' \<in> set (findall (template self)) \<longrightarrow> (\<forall>r. safe_substitute self kwargs \<noteq> Inr r))"
proof (intro conjI impI allI)
  assume "keywords_bind kwargs \<and> set (findall (template self)) \<subseteq> set (map fst kwargs)"
  then show "safe_substitute self kwargs =
        Inr (foldl (\<lambda>acc (key, v). replace (token key) v acc) (template self) kwargs)"
    by (simp add: safe_substitute_covered substitute_loop_foldl del: findall.simps)
next
  fix r
  assume s: "''self'' \<in> set (findall (template self))"
  show "safe_substitute self kwargs \<noteq> Inr r"
  proof (cases "keywords_bind kwargs")
    case False
    from safe_substitute_unbound [OF this, of self] show ?thesis by auto
  next
    case True
    then have "''self'' \<notin> set (map fst kwargs)"
      by (simp add: keywords_bind_def)
    with s have "\<not> set (findall (template self)) \<subseteq> set (map fst kwargs)"
      by blast
    from safe_substitute_uncovered [OF True this] show ?thesis by simp
  qed
qed

theorem safe_substitute_sequential_witness:
  "safe_substitute \<lparr>template = ''@hostname@:@topic@:@body@''\<rparr>
       [(''hostname'', ''H''), (''topic'', ''Top''), (''body'', ''B'')] = Inr ''H:Top:B'' \<and>
   safe_substitute \<lparr>template = ''@hostname@ @topic@ @body@ @self@''\<rparr>
       [(''hostname'', ''H''), (''topic'', ''T''), (''body'', ''B''), (''self'', ''S'')]
     \<noteq> Inr ''H T B S''"
proof -
  let ?self = "\<lparr>template = ''@hostname@:@topic@:@body@''\<rparr>"
  let ?kw = "[(''hostname'', ''H''), (''topic'', ''Top''), (''body'', ''B'')]"
  let ?self2 = "\<lparr>template = ''@hostname@ @topic@ @body@ @self@''\<rparr>"
  let ?kw2 = "[(''hostname'', ''H''), (''topic'', ''T''), (''body'', ''B''), (''self'', ''S'')]"
  have c: "keywords_bind ?kw \<and> set (findall (template ?self)) \<subseteq> set (map fst ?kw)"
    by code_simp
  have f: "foldl (\<lambda>acc (key, v). replace (token key) v acc) (template ?self) ?kw = ''H:Top:B''"
    by code_simp
  have s: "''self'' \<in> set (findall (template ?self2))"
    by code_simp
  from safe_substitute_sequential [of ?kw ?self] c
  have "safe_substitute ?self ?kw =
      Inr (foldl (\<lambda>acc (key, v). replace (token key) v acc) (template ?self) ?kw)"
    by blast
  moreover from safe_substitute_sequential [of ?kw2 ?self2] s
  have "safe_substitute ?self2 ?kw2 \<noteq> Inr ''H T B S''"
    by blast
  ultimately show ?thesis
    unfolding f by blast
qed

text \<open>
  Claim C10. In a call whose arguments bind and cover the captured names, the keys are
  processed in the order of the arguments, each replacement on the text left by the
  ones before it: the replacement of a key works on what the keys before it have
  produced, and the keys after it work on its result. So a value written for an
  earlier key can be rewritten by a later key: on \<open>@hostname@ @topic@ @body@\<close> with
  \<open>hostname\<close> set to \<open>@topic@\<close>, then \<open>topic\<close> to \<open>T\<close> and \<open>body\<close> to \<open>B\<close>, the result is
  \<open>T T B\<close> and not \<open>@topic@ T B\<close>.
\<close>

theorem safe_substitute_in_argument_order:
  "(keywords_bind (kw1 @ (key, v) # kw2) \<and>
    set (findall (template self)) \<subseteq> set (map fst (kw1 @ (key, v) # kw2)) \<longrightarrow>
      safe_substitute self (kw1 @ (key, v) # kw2) =
        Inr (substitute_loop kw2
               (replace (token key) v (substitute_loop kw1 (template self))))) \<and>
   safe_substitute \<lparr>template = ''@hostname@ @topic@ @body@''\<rparr>
       [(''hostname'', ''@topic@''), (''topic'', ''T''), (''body'', ''B'')] = Inr ''T T B'' \<and>
   safe_substitute \<lparr>template = ''@hostname@ @topic@ @body@''\<rparr>
       [(''hostname'', ''@topic@''), (''topic'', ''T''), (''body'', ''B'')]
     \<noteq> Inr ''@topic@ T B''"
proof -
  have "safe_substitute \<lparr>template = ''@hostname@ @topic@ @body@''\<rparr>
       [(''hostname'', ''@topic@''), (''topic'', ''T''), (''body'', ''B'')] = Inr ''T T B''"
    by code_simp
  moreover have "safe_substitute self (kw1 @ (key, v) # kw2) =
        Inr (substitute_loop kw2
               (replace (token key) v (substitute_loop kw1 (template self))))"
    if "keywords_bind (kw1 @ (key, v) # kw2) \<and>
        set (findall (template self)) \<subseteq> set (map fst (kw1 @ (key, v) # kw2))"
    using that by (simp add: safe_substitute_split del: findall.simps)
  ultimately show ?thesis
    by simp
qed

theorem safe_substitute_in_argument_order_witness:
  "replace (token ''hostname'') ''@topic@'' ''@hostname@ @topic@ @body@'' =
     ''@topic@ @topic@ @body@'' \<and>
   replace (token ''topic'') ''T'' ''@topic@ @topic@ @body@'' = ''T T @body@'' \<and>
   safe_substitute \<lparr>template = ''@hostname@ @topic@ @body@''\<rparr>
       ([(''hostname'', ''@topic@'')] @ (''topic'', ''T'') # [(''body'', ''B'')]) =
     Inr (substitute_loop [(''body'', ''B'')] ''T T @body@'')"
proof -
  let ?self = "\<lparr>template = ''@hostname@ @topic@ @body@''\<rparr>"
  have c: "keywords_bind ([(''hostname'', ''@topic@'')] @ (''topic'', ''T'') # [(''body'', ''B'')]) \<and>
           set (findall (template ?self))
             \<subseteq> set (map fst ([(''hostname'', ''@topic@'')] @ (''topic'', ''T'') # [(''body'', ''B'')]))"
    by code_simp
  have r1: "substitute_loop [(''hostname'', ''@topic@'')] (template ?self) = ''@topic@ @topic@ @body@''"
    by code_simp
  have r1': "replace (token ''hostname'') ''@topic@'' ''@hostname@ @topic@ @body@'' =
     ''@topic@ @topic@ @body@''"
    by code_simp
  have r2: "replace (token ''topic'') ''T'' ''@topic@ @topic@ @body@'' = ''T T @body@''"
    by code_simp
  from safe_substitute_in_argument_order
         [of "[(''hostname'', ''@topic@'')]" "''topic''" "''T''" "[(''body'', ''B'')]" ?self] c
  have "safe_substitute ?self ([(''hostname'', ''@topic@'')] @ (''topic'', ''T'') # [(''body'', ''B'')]) =
     Inr (substitute_loop [(''body'', ''B'')]
            (replace (token ''topic'') ''T'' (substitute_loop [(''hostname'', ''@topic@'')] (template ?self))))"
    by blast
  then show ?thesis
    unfolding r1 r2 using r1' r2 by blast
qed

section \<open>Values that hold a token\<close>

text \<open>
  A value is not always left as it was written: with the arguments in the order of the
  program, a topic \<open>@body@\<close> is replaced by the body, and the text \<open>@body@\<close> that was given
  as a value does not reach the output.
\<close>

theorem value_rewritten_counterexample:
  "safe_substitute \<lparr>template = ''Subject: @topic@ / @body@ on @hostname@''\<rparr>
       [(''hostname'', ''node1''), (''topic'', ''@body@''), (''body'', ''Check /var'')] =
     Inr ''Subject: Check /var / Check /var on node1'' \<and>
   \<not> contains ''@body@'' ''Subject: Check /var / Check /var on node1''"
  by code_simp

text \<open>
  Claim C6, amended. In a call whose arguments bind and cover the captured names, take
  an occurrence of the token of a key in the text that the keys before it have left,
  such that no earlier occurrence of the token runs into it. The replacement of the key
  writes the value in its place as it is, whatever \<open>@name@\<close> the value holds, and does
  not read it again. The value then stays as it is, between what the later keys make of
  the text before it and of the text after it, provided that at the turn of each later
  key no occurrence of that key's token starts inside the value or runs into it from the
  text before. Only a token of a later key that the value forms, alone or with the text
  around it, is rewritten.
\<close>

theorem value_kept_verbatim:
  assumes "keywords_bind (kw1 @ (key, v) # kw2)"
    and "set (findall (template self)) \<subseteq> set (map fst (kw1 @ (key, v) # kw2))"
    and "substitute_loop kw1 (template self) = pre @ token key @ post"
    and "ends_within (token key) pre (token key @ post)"
    and "kept_verbatim kw2 (replace (token key) v pre) v (replace (token key) v post)"
  shows "safe_substitute self (kw1 @ (key, v) # kw2) =
           Inr (substitute_loop kw2 (replace (token key) v pre) @ v @
                substitute_loop kw2 (replace (token key) v post))"
proof -
  have "replace (token key) v (substitute_loop kw1 (template self)) =
          replace (token key) v pre @ v @ replace (token key) v post"
    unfolding assms(3) using assms(4) by (rule replace_at_token)
  with safe_substitute_split [OF assms(1,2)] substitute_loop_kept [OF assms(5)]
  show ?thesis by simp
qed

theorem value_kept_verbatim_witness:
  "safe_substitute \<lparr>template = ''@hostname@ @topic@ @body@''\<rparr>
       ([(''hostname'', ''H'')] @ (''topic'', ''cost is @5@'') # [(''body'', ''B'')]) =
     Inr (''H '' @ ''cost is @5@'' @ '' B'') \<and>
   safe_substitute \<lparr>template = ''@hostname@ @topic@ @body@''\<rparr>
       ([(''hostname'', ''H''), (''topic'', ''T'')] @ (''body'', ''@topic@ @5@'') # []) =
     Inr (''H T '' @ ''@topic@ @5@'' @ [])"
proof -
  let ?self = "\<lparr>template = ''@hostname@ @topic@ @body@''\<rparr>"
  let ?kw1 = "[(''hostname'', ''H'')]"
  let ?kw2 = "[(''body'', ''B'')]"
  let ?v = "''cost is @5@''"
  let ?kw1' = "[(''hostname'', ''H''), (''topic'', ''T'')]"
  let ?v' = "''@topic@ @5@''"
  have b: "keywords_bind (?kw1 @ (''topic'', ?v) # ?kw2)"
    by code_simp
  have c: "set (findall (template ?self)) \<subseteq> set (map fst (?kw1 @ (''topic'', ?v) # ?kw2))"
    by code_simp
  have a: "substitute_loop ?kw1 (template ?self) = ''H '' @ token ''topic'' @ '' @body@''"
    by code_simp
  have e: "ends_within (token ''topic'') ''H '' (token ''topic'' @ '' @body@'')"
    by code_simp
  have k: "kept_verbatim ?kw2 (replace (token ''topic'') ?v ''H '') ?v
             (replace (token ''topic'') ?v '' @body@'')"
    by code_simp
  have r: "substitute_loop ?kw2 (replace (token ''topic'') ?v ''H '') = ''H '' \<and>
           substitute_loop ?kw2 (replace (token ''topic'') ?v '' @body@'') = '' B''"
    by code_simp
  have b': "keywords_bind (?kw1' @ (''body'', ?v') # [])"
    by code_simp
  have c': "set (findall (template ?self)) \<subseteq> set (map fst (?kw1' @ (''body'', ?v') # []))"
    by code_simp
  have a': "substitute_loop ?kw1' (template ?self) = ''H T '' @ token ''body'' @ []"
    by code_simp
  have e': "ends_within (token ''body'') ''H T '' (token ''body'' @ [])"
    by code_simp
  have k': "kept_verbatim [] (replace (token ''body'') ?v' ''H T '') ?v'
             (replace (token ''body'') ?v' [])"
    by simp
  have r': "substitute_loop [] (replace (token ''body'') ?v' ''H T '') = ''H T '' \<and>
            substitute_loop [] (replace (token ''body'') ?v' []) = []"
    by code_simp
  from value_kept_verbatim [OF b c a e k] value_kept_verbatim [OF b' c' a' e' k'] r r'
  show ?thesis
    by simp
qed

section \<open>Keys that the template does not use\<close>

text \<open>
  An extra key whose token is not in the template can still change the output: the
  token may be in a value written before the key's turn.
\<close>

theorem extra_key_counterexample:
  "set (findall ''@hostname@ @topic@ @body@'')
     \<subseteq> set (map fst [(''hostname'', ''@user@''), (''topic'', ''T''), (''body'', ''B'')]) \<and>
   \<not> contains (token ''user'') ''@hostname@ @topic@ @body@'' \<and>
   safe_substitute \<lparr>template = ''@hostname@ @topic@ @body@''\<rparr>
       [(''hostname'', ''@user@''), (''topic'', ''T''), (''body'', ''B''), (''user'', ''U'')] =
     Inr ''U T B'' \<and>
   safe_substitute \<lparr>template = ''@hostname@ @topic@ @body@''\<rparr>
       [(''hostname'', ''@user@''), (''topic'', ''T''), (''body'', ''B'')] =
     Inr ''@user@ T B''"
  by code_simp

text \<open>
  Claim C9, amended. When the keys cover every name captured in the template, one more
  key that is not named \<open>self\<close> and is not among the keys already given raises no error.
  It leaves the output as it is without that key when its token does not occur in the
  text accumulated at its turn; this is so for extra keys given before all others whose
  tokens do not occur in the template. An extra key named \<open>self\<close>, or one given twice,
  raises a \<open>TypeError\<close>.
\<close>

theorem extra_key_ignored:
  assumes "set (findall (template self)) \<subseteq> set (map fst (kw1 @ kw2))"
  shows "(keywords_bind (kw1 @ (key, v) # kw2) \<longrightarrow>
            (\<exists>r. safe_substitute self (kw1 @ (key, v) # kw2) = Inr r)) \<and>
         (keywords_bind (kw1 @ (key, v) # kw2) \<and>
          \<not> contains (token key) (substitute_loop kw1 (template self)) \<longrightarrow>
            safe_substitute self (kw1 @ (key, v) # kw2) = safe_substitute self (kw1 @ kw2)) \<and>
         (keywords_bind (extra @ kw1 @ kw2) \<and>
          (\<forall>kv\<in>set extra. \<not> contains (token (fst kv)) (template self)) \<longrightarrow>
            safe_substitute self (extra @ kw1 @ kw2) = safe_substitute self (kw1 @ kw2)) \<and>
         (\<not> keywords_bind (kw1 @ (key, v) # kw2) \<longrightarrow>
            (\<exists>m. safe_substitute self (kw1 @ (key, v) # kw2) = Inl (Exception TypeError m)))"
proof (intro conjI impI)
  from assms have c1: "set (findall (template self)) \<subseteq> set (map fst (kw1 @ (key, v) # kw2))"
    by auto
  from assms have c2: "set (findall (template self)) \<subseteq> set (map fst (extra @ kw1 @ kw2))"
    by auto
  show "\<exists>r. safe_substitute self (kw1 @ (key, v) # kw2) = Inr r"
    if "keywords_bind (kw1 @ (key, v) # kw2)"
    using that c1 by (simp add: safe_substitute_covered del: findall.simps)
  show "safe_substitute self (kw1 @ (key, v) # kw2) = safe_substitute self (kw1 @ kw2)"
    if h: "keywords_bind (kw1 @ (key, v) # kw2) \<and>
        \<not> contains (token key) (substitute_loop kw1 (template self))"
  proof -
    from h have b: "keywords_bind (kw1 @ kw2)"
      by (auto dest: keywords_bind_remove)
    from h have "safe_substitute self (kw1 @ (key, v) # kw2) =
        Inr (substitute_loop (kw1 @ (key, v) # kw2) (template self))"
      using c1 by (simp add: safe_substitute_covered del: findall.simps)
    moreover from b assms have "safe_substitute self (kw1 @ kw2) =
        Inr (substitute_loop (kw1 @ kw2) (template self))"
      by (simp add: safe_substitute_covered del: findall.simps)
    moreover from h have "substitute_loop (kw1 @ (key, v) # kw2) (template self) =
        substitute_loop (kw1 @ kw2) (template self)"
      by (simp add: substitute_loop_append)
    ultimately show ?thesis by simp
  qed
  show "safe_substitute self (extra @ kw1 @ kw2) = safe_substitute self (kw1 @ kw2)"
    if h: "keywords_bind (extra @ kw1 @ kw2) \<and>
        (\<forall>kv\<in>set extra. \<not> contains (token (fst kv)) (template self))"
  proof -
    from h have b: "keywords_bind (kw1 @ kw2)"
      by (auto simp: keywords_bind_def)
    from h c2 have "safe_substitute self (extra @ kw1 @ kw2) =
        Inr (substitute_loop (extra @ kw1 @ kw2) (template self))"
      by (simp add: safe_substitute_covered del: findall.simps)
    moreover from b assms have "safe_substitute self (kw1 @ kw2) =
        Inr (substitute_loop (kw1 @ kw2) (template self))"
      by (simp add: safe_substitute_covered del: findall.simps)
    moreover from h have "substitute_loop (extra @ kw1 @ kw2) (template self) =
        substitute_loop (kw1 @ kw2) (template self)"
      by (simp add: substitute_loop_extra_first)
    ultimately show ?thesis by simp
  qed
  show "\<exists>m. safe_substitute self (kw1 @ (key, v) # kw2) = Inl (Exception TypeError m)"
    if "\<not> keywords_bind (kw1 @ (key, v) # kw2)"
    using that by (rule safe_substitute_unbound)
qed

theorem extra_key_ignored_witness:
  "safe_substitute \<lparr>template = ''@hostname@ @topic@ @body@''\<rparr>
       ([(''hostname'', ''H'')] @ (''user'', ''U'') # [(''topic'', ''T''), (''body'', ''B'')]) =
     Inr ''H T B'' \<and>
   safe_substitute \<lparr>template = ''@hostname@ @topic@ @body@''\<rparr>
       ([(''user'', ''U''), (''date'', ''D'')] @ [(''hostname'', ''H'')] @ [(''topic'', ''T''), (''body'', ''B'')]) =
     Inr ''H T B'' \<and>
   (\<exists>m. safe_substitute \<lparr>template = ''@hostname@ @topic@ @body@''\<rparr>
       ([(''hostname'', ''H'')] @ (''self'', ''S'') # [(''topic'', ''T''), (''body'', ''B'')]) =
     Inl (Exception TypeError m))"
proof -
  let ?self = "\<lparr>template = ''@hostname@ @topic@ @body@''\<rparr>"
  let ?kw1 = "[(''hostname'', ''H'')]"
  let ?kw2 = "[(''topic'', ''T''), (''body'', ''B'')]"
  let ?extra = "[(''user'', ''U''), (''date'', ''D'')]"
  have c: "set (findall (template ?self)) \<subseteq> set (map fst (?kw1 @ ?kw2))"
    by code_simp
  have a: "keywords_bind (?kw1 @ (''user'', ''U'') # ?kw2) \<and>
           \<not> contains (token ''user'') (substitute_loop ?kw1 (template ?self))"
    by code_simp
  have b: "keywords_bind (?extra @ ?kw1 @ ?kw2) \<and>
           (\<forall>kv\<in>set ?extra. \<not> contains (token (fst kv)) (template ?self))"
    by code_simp
  have n: "\<not> keywords_bind (?kw1 @ (''self'', ''S'') # ?kw2)"
    by code_simp
  have base: "safe_substitute ?self (?kw1 @ ?kw2) = Inr ''H T B''"
    by code_simp
  from extra_key_ignored [OF c, of "''user''" "''U''" ?extra] a b
  have "safe_substitute ?self (?kw1 @ (''user'', ''U'') # ?kw2) = safe_substitute ?self (?kw1 @ ?kw2) \<and>
        safe_substitute ?self (?extra @ ?kw1 @ ?kw2) = safe_substitute ?self (?kw1 @ ?kw2)"
    by blast
  moreover from extra_key_ignored [OF c, of "''self''" "''S''" ?extra] n
  have "\<exists>m. safe_substitute ?self (?kw1 @ (''self'', ''S'') # ?kw2) = Inl (Exception TypeError m)"
    by blast
  ultimately show ?thesis
    unfolding base by blast
qed

section \<open>The delivery client\<close>

lemma EmailTemplate_init_raises:
  "EmailTemplate_init s = Inl x \<Longrightarrow> \<exists>m. x = Exception TemplateError m"
  by (auto simp: EmailTemplate_init_cases split: if_splits)

lemma read_template_raises:
  "read_template e path = Inl x \<Longrightarrow> \<exists>c m. x = Exception c m"
  by (auto simp: read_template_def split: if_splits read_outcome.splits
           dest: EmailTemplate_init_raises)

lemma safe_substitute_raises:
  "safe_substitute t kwargs = Inl x \<Longrightarrow> \<exists>c m. x = Exception c m"
  by (auto simp: safe_substitute_def Let_def split: if_splits)

lemma send_email_raises:
  "send_email e content = (Inl x, evs) \<Longrightarrow> \<exists>c m. x = Exception c m"
  by (auto simp: send_email_def split: if_splits popen_outcome.splits)

lemma send_email_events:
  "send_email e content = (r, evs) \<Longrightarrow> evs = [] \<or> evs = [Spawn content]"
  by (auto simp: send_email_def split: if_splits popen_outcome.splits)

text \<open>What \<open>send_email\<close> gives when the configuration file is there.\<close>

lemma send_email_exited:
  "isfile e (msmtp_config e) \<Longrightarrow> run_msmtp e content = Exited returncode out err \<Longrightarrow>
   send_email e content =
     (Inr (returncode = 0, if returncode = 0 then None else Some (strip err)), [Spawn content])"
  by (simp add: send_email_def)

lemma send_email_subprocess_error:
  "isfile e (msmtp_config e) \<Longrightarrow> run_msmtp e content = PopenRaises SubprocessError s \<Longrightarrow>
   send_email e content = (Inr (False, Some s), [Spawn content])"
  by (simp add: send_email_def issubclass_def)

lemma send_email_other_error:
  "isfile e (msmtp_config e) \<Longrightarrow> run_msmtp e content = PopenRaises c s \<Longrightarrow>
   c \<noteq> SubprocessError \<Longrightarrow>
   send_email e content = (Inl (Exception c (Text s)), [Spawn content])"
  by (auto simp: send_email_def issubclass_def)

lemma send_email_never_true_with_text:
  "send_email e content \<noteq> (Inr (True, Some s), evs)"
  by (auto simp: send_email_def split: if_splits popen_outcome.splits)

lemma send_email_true_iff:
  "fst (send_email e content) = Inr (True, None) \<longleftrightarrow>
   isfile e (msmtp_config e) \<and> (\<exists>out err. run_msmtp e content = Exited 0 out err)"
  by (auto simp: send_email_def split: if_splits popen_outcome.splits)

text \<open>
  Claim C2 at a run where the agent's program is not installed and the configuration
  file is there: \<open>Popen\<close> raises \<open>FileNotFoundError\<close>, an \<open>OSError\<close> and no
  \<open>SubprocessError\<close>, so the \<open>except\<close> clause of \<open>send_email\<close> does not catch it and the call
  raises instead of returning a pair with the flag false and the text of the exception.
  What the claim says of the exit status holds: see \<open>send_email_exited\<close>,
  \<open>send_email_true_iff\<close> and \<open>send_email_never_true_with_text\<close>.
\<close>

theorem send_email_oserror_propagates:
  "send_email
     (example_env\<lparr>run_msmtp :=
        (\<lambda>content. PopenRaises FileNotFoundError ''[Errno 2] No such file or directory: msmtp'')\<rparr>)
     ''Subject: Disk full'' =
   (Inl (Exception FileNotFoundError (Text ''[Errno 2] No such file or directory: msmtp'')),
    [Spawn ''Subject: Disk full''])"
  by (simp add: send_email_def example_env_def issubclass_def)

section \<open>The orchestrator\<close>

lemma no_print_debug: "Print_stderr m \<notin> set (debug_lines e a)"
  by (simp add: debug_lines_def)

lemma no_spawn_debug: "Spawn c \<notin> set (debug_lines e a)"
  by (simp add: debug_lines_def)

lemma main_try_parsed:
  assumes "parse_args e = Inr a"
  shows "main_try e =
     (case read_template e (template_path e) of
        Inl x \<Rightarrow> (Inl x, debug_lines e a)
      | Inr t \<Rightarrow>
          (case safe_substitute t (main_kwargs e a) of
             Inl x \<Rightarrow> (Inl x, debug_lines e a)
           | Inr email_content \<Rightarrow>
               (case send_email e email_content of
                  (Inl x, evs) \<Rightarrow> (Inl x, debug_lines e a @ evs)
                | (Inr (success, error), evs) \<Rightarrow>
                    if \<not> success
                    then (Inl (Exception RuntimeError (FailedToSend error)), debug_lines e a @ evs)
                    else (Inr 0, debug_lines e a @ evs @ [Log_info ''Email sent successfully'']))))"
  using assms by (simp add: main_try_def)

lemma main_try_outcome:
  assumes "parse_args e = Inr a"
  shows "(\<exists>content. main_try e =
            (Inr 0, debug_lines e a @ [Spawn content, Log_info ''Email sent successfully''])) \<or>
         (\<exists>c m evs. main_try e = (Inl (Exception c m), debug_lines e a @ evs) \<and>
            (evs = [] \<or> (\<exists>content. evs = [Spawn content])))"
proof (cases "read_template e (template_path e)")
  case (Inl x)
  with read_template_raises [OF Inl] assms show ?thesis
    by (auto simp: main_try_parsed)
next
  case t: (Inr t)
  show ?thesis
  proof (cases "safe_substitute t (main_kwargs e a)")
    case (Inl x)
    with safe_substitute_raises [OF Inl] assms t show ?thesis
      by (auto simp: main_try_parsed)
  next
    case c: (Inr content)
    obtain r evs where s: "send_email e content = (r, evs)"
      by (cases "send_email e content")
    from send_email_events [OF s] have evs: "evs = [] \<or> evs = [Spawn content]" .
    show ?thesis
    proof (cases r)
      case (Inl x)
      with s send_email_raises [of e content x evs] obtain cl m where "x = Exception cl m"
        by auto
      with Inl s c t assms evs show ?thesis
        by (auto simp: main_try_parsed)
    next
      case (Inr p)
      obtain success error where p: "p = (success, error)" by (cases p)
      show ?thesis
      proof (cases success)
        case True
        with Inr p s have "evs = [Spawn content]"
          by (auto simp: send_email_def split: if_splits popen_outcome.splits)
        with True Inr p s c t assms show ?thesis
          by (auto simp: main_try_parsed)
      next
        case False
        with Inr p s c t assms evs show ?thesis
          by (auto simp: main_try_parsed)
      qed
    qed
  qed
qed

lemma main_parsed_outcome:
  assumes "parse_args e = Inr a"
  shows "(\<exists>content. main e =
            (Inr 0, debug_lines e a @ [Spawn content, Log_info ''Email sent successfully''])) \<or>
         (\<exists>m evs. main e = (Inr 1, debug_lines e a @ evs @ [Log_error m, Print_stderr m]) \<and>
            (evs = [] \<or> (\<exists>content. evs = [Spawn content])))"
  using main_try_outcome [OF assms] by (auto simp: main_def)

lemma main_try_success_iff:
  assumes "parse_args e = Inr a"
  shows "fst (main_try e) = Inr 0 \<longleftrightarrow>
         (\<exists>t content out err.
            read_template e (template_path e) = Inr t \<and>
            safe_substitute t (main_kwargs e a) = Inr content \<and>
            isfile e (msmtp_config e) \<and> run_msmtp e content = Exited 0 out err)"
  using assms
  by (auto simp: main_try_parsed send_email_def
           split: sum.splits prod.splits if_splits popen_outcome.splits)

lemma main_success_iff:
  assumes "parse_args e = Inr a"
  shows "fst (main e) = Inr 0 \<longleftrightarrow>
         (\<exists>t content out err.
            read_template e (template_path e) = Inr t \<and>
            safe_substitute t (main_kwargs e a) = Inr content \<and>
            isfile e (msmtp_config e) \<and> run_msmtp e content = Exited 0 out err)"
proof -
  have "fst (main e) = Inr 0 \<longleftrightarrow> fst (main_try e) = Inr 0"
    using main_try_outcome [OF assms] by (auto simp: main_def)
  then show ?thesis
    by (simp add: main_try_success_iff [OF assms])
qed

lemma main_usage_error:
  "parse_args e = Inl status \<Longrightarrow> main e = (Inl (SystemExit status), [])"
  by (simp add: main_def main_try_def)

text \<open>Scenario C: the agent exits with status 3 and \<open>relay timeout\<close> on its error stream.\<close>

lemma main_delivery_failure:
  assumes "parse_args e = Inr a"
    and "read_template e (template_path e) = Inr t"
    and "safe_substitute t (main_kwargs e a) = Inr content"
    and "isfile e (msmtp_config e)"
    and "run_msmtp e content = Exited returncode out err"
    and "returncode \<noteq> 0"
  shows "main e =
     (Inr 1, debug_lines e a @
        [Spawn content, Log_error (FailedToSend (Some (strip err))),
         Print_stderr (FailedToSend (Some (strip err)))])"
  using assms by (simp add: main_def main_try_parsed send_email_exited)

text \<open>
  A usage error is not turned into status 1: \<open>argparse\<close> raises \<open>SystemExit\<close> with
  status 2, \<open>except Exception\<close> does not catch it, and \<open>main\<close> prints nothing.
\<close>

theorem main_usage_error_counterexample:
  "main (example_env\<lparr>parse_args := Inl 2\<rparr>) = (Inl (SystemExit 2), []) \<and>
   exit_status (example_env\<lparr>parse_args := Inl 2\<rparr>) = 2"
  by (simp add: main_def main_try_def exit_status_def example_env_def)

text \<open>
  Claim C3, amended. Once the arguments are parsed, \<open>main\<close> returns, with 0 or 1, and
  raises nothing: 0 exactly when the template was loaded, the substitution succeeded,
  the configuration file is there and the agent exited with status 0, and then nothing
  is printed to the error stream; 1 in every other case (template missing or invalid,
  configuration missing, delivery failure, any other \<open>Exception\<close>), and then the last
  two events are the error logged and \<open>Error: message\<close> printed, once, with the text of
  the exception. When the parser ends the run instead (status 2 after a usage error, 0
  after \<open>--help\<close>), its \<open>SystemExit\<close> passes through \<open>main\<close>, which logs and prints
  nothing, and the process exits with the parser's status.
\<close>

theorem main_exit_status:
  "(parse_args e = Inr a \<longrightarrow>
      (exit_status e = 0 \<or> exit_status e = 1) \<and>
      fst (main e) = Inr (exit_status e) \<and>
      (exit_status e = 0 \<longleftrightarrow>
         (\<exists>t content out err.
            read_template e (template_path e) = Inr t \<and>
            safe_substitute t (main_kwargs e a) = Inr content \<and>
            isfile e (msmtp_config e) \<and> run_msmtp e content = Exited 0 out err)) \<and>
      (exit_status e = 0 \<longrightarrow> (\<forall>m. Print_stderr m \<notin> set (snd (main e)))) \<and>
      (exit_status e = 1 \<longrightarrow>
         (\<exists>evs m. snd (main e) = evs @ [Log_error m, Print_stderr m] \<and>
            (\<forall>m'. Print_stderr m' \<notin> set evs)))) \<and>
   (parse_args e = Inl status \<longrightarrow>
      main e = (Inl (SystemExit status), []) \<and> exit_status e = status)"
proof (intro conjI impI)
  assume p: "parse_args e = Inr a"
  note o = main_parsed_outcome [OF p]
  show "exit_status e = 0 \<or> exit_status e = 1"
    using o by (auto simp: exit_status_def)
  show r: "fst (main e) = Inr (exit_status e)"
    using o by (auto simp: exit_status_def)
  show "exit_status e = 0 \<longleftrightarrow>
         (\<exists>t content out err.
            read_template e (template_path e) = Inr t \<and>
            safe_substitute t (main_kwargs e a) = Inr content \<and>
            isfile e (msmtp_config e) \<and> run_msmtp e content = Exited 0 out err)"
    using r main_success_iff [OF p] by auto
  show "\<forall>m. Print_stderr m \<notin> set (snd (main e))" if "exit_status e = 0"
    using o that by (auto simp: exit_status_def no_print_debug)
  show "\<exists>evs m. snd (main e) = evs @ [Log_error m, Print_stderr m] \<and>
            (\<forall>m'. Print_stderr m' \<notin> set evs)" if "exit_status e = 1"
  proof -
    from o that obtain m evs where
      m: "main e = (Inr 1, debug_lines e a @ evs @ [Log_error m, Print_stderr m])"
      and evs: "evs = [] \<or> (\<exists>content. evs = [Spawn content])"
      by (auto simp: exit_status_def)
    from evs have "\<forall>m'. Print_stderr m' \<notin> set (debug_lines e a @ evs)"
      by (auto simp: no_print_debug)
    with m show ?thesis
      by (intro exI [of _ "debug_lines e a @ evs"] exI [of _ m]) simp
  qed
next
  assume "parse_args e = Inl status"
  then show "main e = (Inl (SystemExit status), [])"
    by (rule main_usage_error)
  then show "exit_status e = status"
    by (simp add: exit_status_def)
qed

theorem main_exit_status_witness:
  "exit_status example_env = 0 \<and>
   fst (main example_env) = Inr 0 \<and>
   exit_status (example_env\<lparr>run_msmtp := (\<lambda>content. Exited 3 [] ''relay timeout'')\<rparr>) = 1 \<and>
   exit_status (example_env\<lparr>parse_args := Inl 0\<rparr>) = 0 \<and>
   main (example_env\<lparr>parse_args := Inl 0\<rparr>) = (Inl (SystemExit 0), [])"
proof -
  let ?a = "\<lparr>topic = ''Disk full'', body = ''Check /var'', hostname = Some ''node1''\<rparr>"
  let ?t = "\<lparr>template = ''Subject: @topic@ / @body@ on @hostname@''\<rparr>"
  let ?fail = "example_env\<lparr>run_msmtp := (\<lambda>content. Exited 3 [] ''relay timeout'')\<rparr>"
  let ?usage = "example_env\<lparr>parse_args := Inl 0\<rparr>"
  have p: "parse_args example_env = Inr ?a"
    by (simp add: example_env_def)
  have rt: "read_template example_env (template_path example_env) = Inr ?t"
    by code_simp
  have ss: "safe_substitute ?t (main_kwargs example_env ?a) =
              Inr ''Subject: Disk full / Check /var on node1''"
    by code_simp
  have cf: "isfile example_env (msmtp_config example_env)"
    by (simp add: example_env_def)
  have run: "run_msmtp example_env ''Subject: Disk full / Check /var on node1'' = Exited 0 [] []"
    by (simp add: example_env_def)
  from rt ss cf run
  have d: "\<exists>t content out err.
            read_template example_env (template_path example_env) = Inr t \<and>
            safe_substitute t (main_kwargs example_env ?a) = Inr content \<and>
            isfile example_env (msmtp_config example_env) \<and>
            run_msmtp example_env content = Exited 0 out err"
    by blast
  from main_exit_status [of example_env ?a] p d
  have ok: "exit_status example_env = 0 \<and> fst (main example_env) = Inr 0"
    by simp
  have pf: "parse_args ?fail = Inr ?a"
    by (simp add: example_env_def)
  have nd: "\<not> (\<exists>t content out err.
            read_template ?fail (template_path ?fail) = Inr t \<and>
            safe_substitute t (main_kwargs ?fail ?a) = Inr content \<and>
            isfile ?fail (msmtp_config ?fail) \<and>
            run_msmtp ?fail content = Exited 0 out err)"
    by simp
  from main_exit_status [of ?fail ?a] pf nd
  have bad: "exit_status ?fail = 1"
    by blast
  have ph: "parse_args ?usage = Inl 0"
    by simp
  from main_exit_status [of ?usage _ 0] ph
  have hp: "main ?usage = (Inl (SystemExit 0), []) \<and> exit_status ?usage = 0"
    by blast
  from ok bad hp show ?thesis
    by blast
qed

section \<open>A missing configuration file\<close>

text \<open>
  Claim C7. When the configuration file of the agent is not a file, \<open>send_email\<close> raises
  a \<open>RuntimeError\<close> that names the path, which is not the pair with a false flag of a
  failed delivery, and it does so before \<open>Popen\<close> is called: no run of the program
  spawns the agent. A run whose arguments were parsed exits with status 1, and one that
  reaches \<open>send_email\<close> logs and prints the configuration error.
\<close>

theorem send_email_config_missing:
  assumes "\<not> isfile e (msmtp_config e)"
  shows "send_email e content =
           (Inl (Exception RuntimeError (ConfigNotFound (msmtp_config e))), []) \<and>
         (\<forall>c. Spawn c \<notin> set (snd (main e))) \<and>
         (\<forall>a. parse_args e = Inr a \<longrightarrow> exit_status e = 1) \<and>
         (\<forall>a t c. parse_args e = Inr a \<and> read_template e (template_path e) = Inr t \<and>
              safe_substitute t (main_kwargs e a) = Inr c \<longrightarrow>
            main e =
              (Inr 1, debug_lines e a @
                 [Log_error (ConfigNotFound (msmtp_config e)),
                  Print_stderr (ConfigNotFound (msmtp_config e))]))"
proof (intro conjI allI impI)
  show s: "send_email e content =
           (Inl (Exception RuntimeError (ConfigNotFound (msmtp_config e))), [])" for content
    using assms by (simp add: send_email_def)
  show "Spawn c \<notin> set (snd (main e))" for c
  proof (cases "parse_args e")
    case (Inl status)
    then show ?thesis by (simp add: main_usage_error)
  next
    case (Inr a)
    have "Spawn c \<notin> set (snd (main_try e))"
      by (auto simp: main_try_parsed [OF Inr] s no_spawn_debug split: sum.splits)
    moreover have "set (snd (main e)) \<subseteq> set (snd (main_try e)) \<union> {Log_error m | m. True} \<union> {Print_stderr m | m. True}"
      by (auto simp: main_def split: sum.splits prod.splits exn.splits)
    ultimately show ?thesis by auto
  qed
  show "exit_status e = 1" if p: "parse_args e = Inr a" for a
  proof -
    from assms main_success_iff [OF p] have "fst (main e) \<noteq> Inr 0"
      by blast
    with main_parsed_outcome [OF p] show ?thesis
      by (auto simp: exit_status_def)
  qed
  show "main e =
              (Inr 1, debug_lines e a @
                 [Log_error (ConfigNotFound (msmtp_config e)),
                  Print_stderr (ConfigNotFound (msmtp_config e))])"
    if "parse_args e = Inr a \<and> read_template e (template_path e) = Inr t \<and>
              safe_substitute t (main_kwargs e a) = Inr c" for a t c
    using that by (simp add: main_def main_try_parsed s)
qed

theorem send_email_config_missing_witness:
  "send_email (example_env\<lparr>isfile := (\<lambda>p. p = ''/opt/notify/template.txt'')\<rparr>)
       ''Subject: Disk full / Check /var on node1'' =
     (Inl (Exception RuntimeError (ConfigNotFound ''/root/.msmtprc'')), []) \<and>
   exit_status (example_env\<lparr>isfile := (\<lambda>p. p = ''/opt/notify/template.txt'')\<rparr>) = 1 \<and>
   (\<forall>c. Spawn c \<notin> set (snd (main (example_env\<lparr>isfile := (\<lambda>p. p = ''/opt/notify/template.txt'')\<rparr>))))"
proof -
  let ?e = "example_env\<lparr>isfile := (\<lambda>p. p = ''/opt/notify/template.txt'')\<rparr>"
  let ?a = "\<lparr>topic = ''Disk full'', body = ''Check /var'', hostname = Some ''node1''\<rparr>"
  have n: "\<not> isfile ?e (msmtp_config ?e)"
    by (simp add: example_env_def)
  have c: "msmtp_config ?e = ''/root/.msmtprc''"
    by (simp add: example_env_def)
  have p: "parse_args ?e = Inr ?a"
    by (simp add: example_env_def)
  from send_email_config_missing [OF n, of "''Subject: Disk full / Check /var on node1''"] p
  show ?thesis
    unfolding c by blast
qed

section \<open>Loading the template\<close>

text \<open>
  A file that exists and is read without error does not always give a template: the
  contents can fail the validation of the constructor.
\<close>

theorem read_template_invalid_counterexample:
  "isfile (example_env\<lparr>read_text := (\<lambda>p. Contents ''Hello, world'')\<rparr>) ''/opt/notify/template.txt'' \<and>
   read_text (example_env\<lparr>read_text := (\<lambda>p. Contents ''Hello, world'')\<rparr>) ''/opt/notify/template.txt'' =
     Contents ''Hello, world'' \<and>
   read_template (example_env\<lparr>read_text := (\<lambda>p. Contents ''Hello, world'')\<rparr>) ''/opt/notify/template.txt'' =
     Inl (Exception TemplateError NoValidPlaceholders)"
  by code_simp

text \<open>
  Claim C8, amended. When the path is not an existing regular file, \<open>read_template\<close>
  raises a \<open>FileNotFoundError\<close> that names the path, and the run logs and prints that
  error and exits with status 1, with no substitution and no delivery. When the file is
  there and reading or decoding raises an \<open>OSError\<close> or a \<open>UnicodeDecodeError\<close>, it raises
  a \<open>TemplateError\<close> with the text of that error. Otherwise the result is that of
  constructing the engine on the whole contents: the engine when the names captured
  include \<open>hostname\<close>, \<open>topic\<close> and \<open>body\<close>, the \<open>TemplateError\<close> of the validation when they
  do not.
\<close>

theorem read_template_outcomes:
  "(\<not> isfile e path \<longrightarrow>
      read_template e path = Inl (Exception FileNotFoundError (TemplateNotFound path))) \<and>
   (isfile e path \<and> read_text e path = ReadRaises c s \<and>
      (issubclass c OSError \<or> issubclass c UnicodeDecodeError) \<longrightarrow>
      read_template e path = Inl (Exception TemplateError (ErrorReadingTemplate s))) \<and>
   (isfile e path \<and> read_text e path = Contents s \<longrightarrow>
      read_template e path = EmailTemplate_init s \<and>
      (required_placeholders \<subseteq> set (findall s) \<longrightarrow>
         read_template e path = Inr \<lparr>template = s\<rparr>) \<and>
      (\<not> required_placeholders \<subseteq> set (findall s) \<longrightarrow>
         (\<exists>m. read_template e path = Inl (Exception TemplateError m)))) \<and>
   (parse_args e = Inr a \<and> \<not> isfile e (template_path e) \<longrightarrow>
      main e =
        (Inr 1, debug_lines e a @
           [Log_error (TemplateNotFound (template_path e)),
            Print_stderr (TemplateNotFound (template_path e))]) \<and>
      exit_status e = 1)"
proof (intro conjI impI)
  show "read_template e path = Inl (Exception FileNotFoundError (TemplateNotFound path))"
    if "\<not> isfile e path"
    using that by (simp add: read_template_def)
  show "read_template e path = Inl (Exception TemplateError (ErrorReadingTemplate s))"
    if "isfile e path \<and> read_text e path = ReadRaises c s \<and>
        (issubclass c OSError \<or> issubclass c UnicodeDecodeError)"
    using that by (simp add: read_template_def)
next
  assume h: "isfile e path \<and> read_text e path = Contents s"
  then show r: "read_template e path = EmailTemplate_init s"
    by (simp add: read_template_def)
  show "read_template e path = Inr \<lparr>template = s\<rparr>"
    if "required_placeholders \<subseteq> set (findall s)"
  proof -
    from that have "set (findall s) \<noteq> {}"
      by (auto simp: required_placeholders_def)
    with that r show ?thesis
      by (simp add: EmailTemplate_init_cases del: findall.simps)
  qed
  show "\<exists>m. read_template e path = Inl (Exception TemplateError m)"
    if "\<not> required_placeholders \<subseteq> set (findall s)"
    using that r by (simp add: EmailTemplate_init_cases del: findall.simps)
next
  assume h: "parse_args e = Inr a \<and> \<not> isfile e (template_path e)"
  then have "read_template e (template_path e) =
      Inl (Exception FileNotFoundError (TemplateNotFound (template_path e)))"
    by (simp add: read_template_def)
  with h show m: "main e =
        (Inr 1, debug_lines e a @
           [Log_error (TemplateNotFound (template_path e)),
            Print_stderr (TemplateNotFound (template_path e))])"
    by (simp add: main_def main_try_parsed)
  then show "exit_status e = 1"
    by (simp add: exit_status_def)
qed

theorem read_template_outcomes_witness:
  "read_template (example_env\<lparr>isfile := (\<lambda>p. False)\<rparr>) ''/opt/notify/template.txt'' =
     Inl (Exception FileNotFoundError (TemplateNotFound ''/opt/notify/template.txt'')) \<and>
   exit_status (example_env\<lparr>isfile := (\<lambda>p. False)\<rparr>) = 1 \<and>
   read_template (example_env\<lparr>read_text := (\<lambda>p. ReadRaises UnicodeDecodeError ''invalid start byte'')\<rparr>)
       ''/opt/notify/template.txt'' =
     Inl (Exception TemplateError (ErrorReadingTemplate ''invalid start byte'')) \<and>
   read_template example_env ''/opt/notify/template.txt'' =
     Inr \<lparr>template = ''Subject: @topic@ / @body@ on @hostname@''\<rparr>"
proof -
  let ?p = "''/opt/notify/template.txt''"
  let ?a = "\<lparr>topic = ''Disk full'', body = ''Check /var'', hostname = Some ''node1''\<rparr>"
  let ?gone = "example_env\<lparr>isfile := (\<lambda>p. False)\<rparr>"
  let ?bad = "example_env\<lparr>read_text := (\<lambda>p. ReadRaises UnicodeDecodeError ''invalid start byte'')\<rparr>"
  let ?s = "''Subject: @topic@ / @body@ on @hostname@''"
  have g1: "\<not> isfile ?gone ?p"
    by simp
  have g2: "parse_args ?gone = Inr ?a \<and> \<not> isfile ?gone (template_path ?gone)"
    by (simp add: example_env_def)
  from read_template_outcomes [of ?gone ?p] g1
  have r1: "read_template ?gone ?p = Inl (Exception FileNotFoundError (TemplateNotFound ?p))"
    by blast
  from read_template_outcomes [of ?gone _ _ _ ?a] g2
  have r2: "exit_status ?gone = 1"
    by blast
  have b: "isfile ?bad ?p \<and> read_text ?bad ?p = ReadRaises UnicodeDecodeError ''invalid start byte'' \<and>
           (issubclass UnicodeDecodeError OSError \<or> issubclass UnicodeDecodeError UnicodeDecodeError)"
    by (simp add: example_env_def issubclass_def)
  from read_template_outcomes [of ?bad ?p UnicodeDecodeError "''invalid start byte''"] b
  have r3: "read_template ?bad ?p = Inl (Exception TemplateError (ErrorReadingTemplate ''invalid start byte''))"
    by blast
  have f: "findall ?s = [''topic'', ''body'', ''hostname'']"
    by code_simp
  have k: "isfile example_env ?p \<and> read_text example_env ?p = Contents ?s"
    by (simp add: example_env_def)
  have q: "required_placeholders \<subseteq> set (findall ?s)"
    unfolding f by (simp add: required_placeholders_def)
  from read_template_outcomes [of example_env ?p _ ?s] k q
  have r4: "read_template example_env ?p = Inr \<lparr>template = ?s\<rparr>"
    by blast
  from r1 r2 r3 r4 show ?thesis
    by blast
qed

end
